theory Spec2Isabelle
  imports Main "HOL-Library.Word"
begin

section \<open>The frame decoder of firmware\_v2/SerialReader.cpp\<close>

text \<open>
  The decoder is the class \<^verbatim>\<open>SerialReader\<close>: a byte-at-a-time state machine
  (\<^verbatim>\<open>readUpdate\<close>) and an acknowledgment (\<^verbatim>\<open>payloadHandled\<close>). Its header
  \<^verbatim>\<open>SerialReader.h\<close> is not part of the sources, so the two macros it defines are
  parameters of the model and the member declarations follow the specification.
\<close>

type_synonym byte = "8 word"

text \<open>The enumeration of \<^verbatim>\<open>_state\<close>, in the order of the \<^verbatim>\<open>switch\<close>.\<close>

datatype State = WAITFORPACKET | HEADER1 | HEADER2 | PAYLOAD | CHKSUM | WAITFORHANDLING

text \<open>
  The macros \<^verbatim>\<open>INCOMING_HEADER_BYTE\<close> (the synchronization byte) and
  \<^verbatim>\<open>maxPayloadSize\<close>, both defined in the absent header: parameters.
\<close>

record config =
  INCOMING_HEADER_BYTE :: byte
  maxPayloadSize :: nat

text \<open>
  Modelled from the spec: the member declarations of \<^verbatim>\<open>SerialReader.h\<close>. The
  running checksum is an 8-bit unsigned accumulator, the current byte is a byte, the
  expected payload length and the fill count are integers (the length takes the sentinel
  \<open>-1\<close>), and the payload buffer is a byte array whose capacity is the length of
  \<open>payload\<close>. The specification gives the capacity as \<^verbatim>\<open>maxPayloadSize\<close>; the
  theorems that need it assume \<open>length (payload r) = maxPayloadSize cfg\<close>. On the
  target an \<^verbatim>\<open>int\<close> has 16 bits; the fill count stays below the capacity in every
  state that has not faulted, so its arithmetic is that of the unbounded integers.
\<close>

record SerialReader =
  state :: State
  currByte :: byte
  currPlSz :: int
  plCntr :: int
  chksum :: byte
  payload :: "byte list"

text \<open>
  Two things the code can do are undefined behaviour in C++, and the model stops at each
  with a fault: a write \<^verbatim>\<open>payload[i] = b\<close> outside the array, and reaching the end of
  \<^verbatim>\<open>int readUpdate()\<close> without a \<^verbatim>\<open>return\<close> statement. Nothing is said of the decoder
  or of the value of the call after either.
\<close>

datatype fault = BufferOverrun | MissingReturn

text \<open>
  The constructor assigns \<^verbatim>\<open>_state\<close> only: every other member keeps what the
  object's storage held.
\<close>

definition SerialReader_new :: "SerialReader \<Rightarrow> SerialReader" where
  "SerialReader_new mem = mem\<lparr>state := WAITFORPACKET\<rparr>"

text \<open>
  The \<^verbatim>\<open>switch (_state)\<close> of \<^verbatim>\<open>readUpdate\<close>, run after \<^verbatim>\<open>_currByte\<close> has been
  read. Comparisons of a byte with \<^verbatim>\<open>maxPayloadSize\<close> are made on the promoted
  integers (\<open>unat\<close>, \<open>uint\<close>); an assignment to \<^verbatim>\<open>_chksum\<close> keeps the low 8 bits,
  which is addition on \<open>8 word\<close>.
\<close>

definition switch_state :: "config \<Rightarrow> SerialReader \<Rightarrow> fault + SerialReader" where
  "switch_state cfg r =
     (case state r of
        WAITFORPACKET \<Rightarrow>
          if currByte r = INCOMING_HEADER_BYTE cfg
          then Inr (r\<lparr>state := HEADER1\<rparr>)
          else Inr r
      | HEADER1 \<Rightarrow>
          if currByte r = INCOMING_HEADER_BYTE cfg
          then Inr (r\<lparr>state := HEADER2\<rparr>)
          else Inr (r\<lparr>state := WAITFORPACKET\<rparr>)
      | HEADER2 \<Rightarrow>
          if currByte r = 0 \<or> unat (currByte r) > maxPayloadSize cfg
          then Inr (r\<lparr>state := WAITFORPACKET\<rparr>)
          else Inr (r\<lparr>currPlSz := uint (currByte r) - 1,
                      plCntr := 0,
                      state := PAYLOAD,
                      chksum := INCOMING_HEADER_BYTE cfg + INCOMING_HEADER_BYTE cfg + currByte r\<rparr>)
      | PAYLOAD \<Rightarrow>
          if 0 \<le> plCntr r \<and> nat (plCntr r) < length (payload r)
          then
            (let r1 = r\<lparr>payload := (payload r)[nat (plCntr r) := currByte r],
                         plCntr := plCntr r + 1\<rparr>;
                 r2 = r1\<lparr>chksum := chksum r1 + currByte r1\<rparr>
             in Inr (if plCntr r2 = currPlSz r2 then r2\<lparr>state := CHKSUM\<rparr> else r2))
          else Inl BufferOverrun
      | CHKSUM \<Rightarrow>
          if chksum r = currByte r
          then Inr (r\<lparr>state := WAITFORHANDLING\<rparr>)
          else Inr (r\<lparr>state := WAITFORPACKET\<rparr>)
      | WAITFORHANDLING \<Rightarrow> Inr r)"

text \<open>
  \<^verbatim>\<open>readUpdate\<close>. The byte source \<^verbatim>\<open>bt1\<close> is the list of its unread bytes:
  \<^verbatim>\<open>available() > 0\<close> is a non-empty list and \<^verbatim>\<open>read()\<close> takes its head. The body
  of the \<^verbatim>\<open>while\<close> ends in a \<^verbatim>\<open>return\<close> on both branches, so at most one byte is
  read per call, and \<open>Some v\<close> is the value of the \<^verbatim>\<open>return\<close> statement that ended
  the call. With nothing to read the loop is not entered and the function ends without a
  \<^verbatim>\<open>return\<close> statement: the fault \<open>MissingReturn\<close>.
\<close>

definition readUpdate ::
    "config \<Rightarrow> SerialReader \<Rightarrow> byte list \<Rightarrow> fault + (int option \<times> SerialReader \<times> byte list)" where
  "readUpdate cfg r bt1 =
     (case bt1 of
        [] \<Rightarrow> Inl MissingReturn
      | b # rest \<Rightarrow>
          (case switch_state cfg (r\<lparr>currByte := b\<rparr>) of
             Inl e \<Rightarrow> Inl e
           | Inr r' \<Rightarrow>
               Inr (Some (if state r' = WAITFORHANDLING then currPlSz r' else - 1), r', rest)))"

text \<open>\<^verbatim>\<open>payloadHandled\<close>.\<close>

definition payloadHandled :: "SerialReader \<Rightarrow> SerialReader" where
  "payloadHandled r = r\<lparr>currPlSz := - 1, state := WAITFORPACKET\<rparr>"

subsection \<open>The poll loop around the decoder\<close>

text \<open>
  The firmware loop is outside the sources. What it can do to the decoder is call
  \<^verbatim>\<open>readUpdate\<close> when a byte has arrived and call \<^verbatim>\<open>payloadHandled\<close>; a history
  is a list of such events. A fault ends the history.
\<close>

datatype event = Rx byte | Handled

fun run :: "config \<Rightarrow> SerialReader \<Rightarrow> event list \<Rightarrow> fault + SerialReader" where
  "run cfg r [] = Inr r"
| "run cfg r (Rx b # es) =
     (case readUpdate cfg r [b] of
        Inl e \<Rightarrow> Inl e
      | Inr (v, r', rest) \<Rightarrow> run cfg r' es)"
| "run cfg r (Handled # es) = run cfg (payloadHandled r) es"

text \<open>Bytes delivered one at a time, one call of \<^verbatim>\<open>readUpdate\<close> for each.\<close>

definition feed :: "config \<Rightarrow> SerialReader \<Rightarrow> byte list \<Rightarrow> fault + SerialReader" where
  "feed cfg r bs = run cfg r (map Rx bs)"

text \<open>
  The wire format the decoder accepts, \<^verbatim>\<open>SYNC SYNC LEN PAYLOAD CHECKSUM\<close>, for a
  payload \<open>ps\<close>: the length byte counts the payload and the checksum byte, and the
  checksum is the 8-bit sum of everything before it.
\<close>

definition packet :: "config \<Rightarrow> byte list \<Rightarrow> byte list" where
  "packet cfg ps =
     [INCOMING_HEADER_BYTE cfg, INCOMING_HEADER_BYTE cfg, of_nat (length ps + 1)] @ ps @
     [INCOMING_HEADER_BYTE cfg + INCOMING_HEADER_BYTE cfg + of_nat (length ps + 1) + sum_list ps]"

subsection \<open>A concrete decoder\<close>

text \<open>
  The scenario of the specification: synchronization byte \<open>0xAA\<close>, here with a
  payload buffer of four bytes, on storage that held zeros before the constructor ran.
\<close>

definition example_config :: config where
  "example_config = \<lparr>INCOMING_HEADER_BYTE = 0xAA, maxPayloadSize = 4\<rparr>"

definition zeroed_storage :: SerialReader where
  "zeroed_storage =
     \<lparr>state = WAITFORPACKET, currByte = 0, currPlSz = 0, plCntr = 0, chksum = 0,
      payload = [0, 0, 0, 0]\<rparr>"

text \<open>The decoder after the packet \<open>AA AA 03 10 20 87\<close> has been read.\<close>

definition example_ready :: SerialReader where
  "example_ready =
     \<lparr>state = WAITFORHANDLING, currByte = 0x87, currPlSz = 2, plCntr = 2, chksum = 0x87,
      payload = [0x10, 0x20, 0, 0]\<rparr>"

subsection \<open>The fill count while a payload is live\<close>

text \<open>
  What the transitions keep true of the fill count and the expected payload length in the
  states that use them; in the other states the two members are stale.
\<close>

definition fill_inv :: "config \<Rightarrow> SerialReader \<Rightarrow> bool" where
  "fill_inv cfg r \<longleftrightarrow>
     length (payload r) = maxPayloadSize cfg \<and>
     (case state r of
        PAYLOAD \<Rightarrow>
          0 \<le> plCntr r \<and>
          (1 \<le> currPlSz r \<longrightarrow> plCntr r < currPlSz r \<and> currPlSz r < int (maxPayloadSize cfg))
      | CHKSUM \<Rightarrow>
          0 \<le> plCntr r \<and> plCntr r = currPlSz r \<and> currPlSz r < int (maxPayloadSize cfg)
      | WAITFORHANDLING \<Rightarrow>
          0 \<le> plCntr r \<and> plCntr r = currPlSz r \<and> currPlSz r < int (maxPayloadSize cfg)
      | _ \<Rightarrow> True)"

section \<open>One call, one byte\<close>

lemma readUpdate_Nil: "readUpdate cfg r [] = Inl MissingReturn"
  by (simp add: readUpdate_def)

lemma readUpdate_Cons:
  "readUpdate cfg r (b # rest) =
     (case switch_state cfg (r\<lparr>currByte := b\<rparr>) of
        Inl e \<Rightarrow> Inl e
      | Inr r' \<Rightarrow> Inr (Some (if state r' = WAITFORHANDLING then currPlSz r' else - 1), r', rest))"
  by (simp add: readUpdate_def)

lemma readUpdate_one_byte:
  "switch_state cfg (r\<lparr>currByte := b\<rparr>) = Inr r' \<Longrightarrow>
   readUpdate cfg r (b # rest) =
     Inr (Some (if state r' = WAITFORHANDLING then currPlSz r' else - 1), r', rest)"
  by (simp add: readUpdate_Cons)

lemma readUpdate_returns:
  assumes "readUpdate cfg r (b # rest) = Inr (v, r', rest')"
  shows "v = Some (if state r' = WAITFORHANDLING then currPlSz r' else - 1) \<and> rest' = rest
         \<and> switch_state cfg (r\<lparr>currByte := b\<rparr>) = Inr r'"
  using assms by (auto simp: readUpdate_Cons split: sum.splits)

lemma feed_Nil: "feed cfg r [] = Inr r"
  by (simp add: feed_def)

lemma feed_Cons:
  "feed cfg r (b # bs) =
     (case switch_state cfg (r\<lparr>currByte := b\<rparr>) of Inl e \<Rightarrow> Inl e | Inr r' \<Rightarrow> feed cfg r' bs)"
  by (simp add: feed_def readUpdate_def split: sum.splits)

lemma feed_append:
  "feed cfg r (xs @ ys) = (case feed cfg r xs of Inl e \<Rightarrow> Inl e | Inr r' \<Rightarrow> feed cfg r' ys)"
  by (induction xs arbitrary: r) (simp_all add: feed_Nil feed_Cons split: sum.splits)

lemmas example_eval = feed_Nil feed_Cons readUpdate_def switch_state_def payloadHandled_def
  SerialReader_new_def example_config_def zeroed_storage_def example_ready_def packet_def Let_def

subsection \<open>The transitions, state by state\<close>

lemma switch_WAITFORPACKET:
  "state r = WAITFORPACKET \<Longrightarrow>
   switch_state cfg (r\<lparr>currByte := b\<rparr>) =
     Inr (if b = INCOMING_HEADER_BYTE cfg then r\<lparr>currByte := b, state := HEADER1\<rparr>
          else r\<lparr>currByte := b\<rparr>)"
  by (simp add: switch_state_def)

lemma switch_HEADER1:
  "state r = HEADER1 \<Longrightarrow>
   switch_state cfg (r\<lparr>currByte := b\<rparr>) =
     Inr (r\<lparr>currByte := b,
            state := (if b = INCOMING_HEADER_BYTE cfg then HEADER2 else WAITFORPACKET)\<rparr>)"
  by (simp add: switch_state_def)

lemma switch_HEADER2_reject:
  "state r = HEADER2 \<Longrightarrow> b = 0 \<or> maxPayloadSize cfg < unat b \<Longrightarrow>
   switch_state cfg (r\<lparr>currByte := b\<rparr>) = Inr (r\<lparr>currByte := b, state := WAITFORPACKET\<rparr>)"
  by (auto simp add: switch_state_def)

lemma switch_HEADER2_accept:
  "state r = HEADER2 \<Longrightarrow> b \<noteq> 0 \<Longrightarrow> unat b \<le> maxPayloadSize cfg \<Longrightarrow>
   switch_state cfg (r\<lparr>currByte := b\<rparr>) =
     Inr (r\<lparr>currByte := b, currPlSz := uint b - 1, plCntr := 0, state := PAYLOAD,
            chksum := INCOMING_HEADER_BYTE cfg + INCOMING_HEADER_BYTE cfg + b\<rparr>)"
  by (simp add: switch_state_def)

lemma switch_CHKSUM:
  "state r = CHKSUM \<Longrightarrow>
   switch_state cfg (r\<lparr>currByte := b\<rparr>) =
     Inr (r\<lparr>currByte := b,
            state := (if chksum r = b then WAITFORHANDLING else WAITFORPACKET)\<rparr>)"
  by (simp add: switch_state_def)

lemma switch_WAITFORHANDLING:
  "state r = WAITFORHANDLING \<Longrightarrow>
   switch_state cfg (r\<lparr>currByte := b\<rparr>) = Inr (r\<lparr>currByte := b\<rparr>)"
  by (simp add: switch_state_def)

lemma switch_PAYLOAD:
  assumes "state r = PAYLOAD" and "plCntr r = int k" and "k < length (payload r)"
  shows "switch_state cfg (r\<lparr>currByte := b\<rparr>) =
           Inr (r\<lparr>currByte := b, payload := (payload r)[k := b], plCntr := int k + 1,
                  chksum := chksum r + b,
                  state := (if int k + 1 = currPlSz r then CHKSUM else PAYLOAD)\<rparr>)"
  using assms by (simp add: switch_state_def Let_def)

subsection \<open>Payload accumulation\<close>

lemma feed_PAYLOAD:
  assumes "state r = PAYLOAD" and "plCntr r = int k" and "currPlSz r = int n"
    and "k < n" and "k + length bs \<le> n" and "n \<le> length (payload r)"
  shows "\<exists>r'. feed cfg r bs = Inr r'
           \<and> state r' = (if k + length bs = n then CHKSUM else PAYLOAD)
           \<and> plCntr r' = int (k + length bs)
           \<and> currPlSz r' = int n
           \<and> chksum r' = chksum r + sum_list bs
           \<and> payload r' = take k (payload r) @ bs @ drop (k + length bs) (payload r)"
  using assms
proof (induction bs arbitrary: r k)
  case Nil
  then show ?case by (simp add: feed_Nil)
next
  case (Cons b bs)
  let ?r1 = "r\<lparr>currByte := b, payload := (payload r)[k := b], plCntr := int k + 1,
                  chksum := chksum r + b,
                  state := (if int k + 1 = currPlSz r then CHKSUM else PAYLOAD)\<rparr>"
  have k: "k < length (payload r)" using Cons.prems by simp
  have step: "feed cfg r (b # bs') = feed cfg ?r1 bs'" for bs'
    by (simp add: feed_Cons switch_PAYLOAD [OF Cons.prems(1,2) k])
  have upd: "(payload r)[k := b] = take k (payload r) @ b # drop (Suc k) (payload r)"
    using k by (simp add: upd_conv_take_nth_drop)
  show ?case
  proof (cases "Suc k = n")
    case True
    have bs: "bs = []" using True Cons.prems(5) by auto
    have n: "n = Suc k" using True by simp
    show ?thesis
      using Cons.prems(3) upd by (simp add: bs n step feed_Nil)
  next
    case False
    then have lt: "Suc k < n" using Cons.prems by simp
    have ne: "int k + 1 \<noteq> currPlSz r" using False Cons.prems(3) by simp
    have "\<exists>r'. feed cfg ?r1 bs = Inr r'
           \<and> state r' = (if Suc k + length bs = n then CHKSUM else PAYLOAD)
           \<and> plCntr r' = int (Suc k + length bs)
           \<and> currPlSz r' = int n
           \<and> chksum r' = chksum ?r1 + sum_list bs
           \<and> payload r' = take (Suc k) (payload ?r1) @ bs @ drop (Suc k + length bs) (payload ?r1)"
      using Cons.prems lt ne by (intro Cons.IH) simp_all
    then obtain r' where r': "feed cfg ?r1 bs = Inr r'"
        "state r' = (if Suc k + length bs = n then CHKSUM else PAYLOAD)"
        "plCntr r' = int (Suc k + length bs)"
        "currPlSz r' = int n"
        "chksum r' = chksum ?r1 + sum_list bs"
        "payload r' = take (Suc k) (payload ?r1) @ bs @ drop (Suc k + length bs) (payload ?r1)"
      by blast
    have pl: "payload r' = take k (payload r) @ (b # bs) @ drop (k + length (b # bs)) (payload r)"
      using k by (simp add: r'(6) upd add.commute)
    have ck: "chksum r' = chksum r + sum_list (b # bs)"
      by (simp add: r'(5) add.assoc)
    show ?thesis
      using r'(1-4) pl ck by (simp add: step)
  qed
qed

lemma feed_length_byte:
  assumes "state r = HEADER2" and "2 \<le> unat L" and "unat L \<le> maxPayloadSize cfg"
    and "length (payload r) = maxPayloadSize cfg" and "length bs \<le> unat L - 1"
  shows "\<exists>r'. feed cfg r (L # bs) = Inr r'
           \<and> state r' = (if length bs = unat L - 1 then CHKSUM else PAYLOAD)
           \<and> plCntr r' = int (length bs)
           \<and> currPlSz r' = int (unat L - 1)
           \<and> chksum r' = INCOMING_HEADER_BYTE cfg + INCOMING_HEADER_BYTE cfg + L + sum_list bs
           \<and> payload r' = bs @ drop (length bs) (payload r)"
proof -
  let ?r0 = "r\<lparr>currByte := L, currPlSz := uint L - 1, plCntr := 0, state := PAYLOAD,
            chksum := INCOMING_HEADER_BYTE cfg + INCOMING_HEADER_BYTE cfg + L\<rparr>"
  have L0: "L \<noteq> 0" using assms(2) by auto
  have step: "feed cfg r (L # bs) = feed cfg ?r0 bs"
    by (simp add: feed_Cons switch_HEADER2_accept [OF assms(1) L0 assms(3)])
  have sz: "currPlSz ?r0 = int (unat L - 1)"
    using assms(2) by (simp add: of_nat_diff)
  have "\<exists>r'. feed cfg ?r0 bs = Inr r'
           \<and> state r' = (if 0 + length bs = unat L - 1 then CHKSUM else PAYLOAD)
           \<and> plCntr r' = int (0 + length bs)
           \<and> currPlSz r' = int (unat L - 1)
           \<and> chksum r' = chksum ?r0 + sum_list bs
           \<and> payload r' = take 0 (payload ?r0) @ bs @ drop (0 + length bs) (payload ?r0)"
    using assms(2-5) sz by (intro feed_PAYLOAD) simp_all
  then show ?thesis by (simp add: step)
qed

lemma feed_sync:
  assumes "state r = WAITFORPACKET"
  shows "feed cfg r (INCOMING_HEADER_BYTE cfg # INCOMING_HEADER_BYTE cfg # bs) =
           feed cfg (r\<lparr>currByte := INCOMING_HEADER_BYTE cfg, state := HEADER2\<rparr>) bs"
  using assms by (simp add: feed_Cons switch_WAITFORPACKET switch_HEADER1)

lemma feed_frame:
  assumes "state r = WAITFORPACKET" and "2 \<le> unat L" and "unat L \<le> maxPayloadSize cfg"
    and "length (payload r) = maxPayloadSize cfg" and "length bs \<le> unat L - 1"
  shows "\<exists>r'. feed cfg r (INCOMING_HEADER_BYTE cfg # INCOMING_HEADER_BYTE cfg # L # bs) = Inr r'
           \<and> state r' = (if length bs = unat L - 1 then CHKSUM else PAYLOAD)
           \<and> plCntr r' = int (length bs)
           \<and> currPlSz r' = int (unat L - 1)
           \<and> chksum r' = INCOMING_HEADER_BYTE cfg + INCOMING_HEADER_BYTE cfg + L + sum_list bs
           \<and> payload r' = bs @ drop (length bs) (payload r)"
proof -
  let ?r0 = "r\<lparr>currByte := INCOMING_HEADER_BYTE cfg, state := HEADER2\<rparr>"
  have "\<exists>r'. feed cfg ?r0 (L # bs) = Inr r'
           \<and> state r' = (if length bs = unat L - 1 then CHKSUM else PAYLOAD)
           \<and> plCntr r' = int (length bs)
           \<and> currPlSz r' = int (unat L - 1)
           \<and> chksum r' = INCOMING_HEADER_BYTE cfg + INCOMING_HEADER_BYTE cfg + L + sum_list bs
           \<and> payload r' = bs @ drop (length bs) (payload ?r0)"
    using assms(2-5) by (intro feed_length_byte) simp_all
  then show ?thesis by (simp add: feed_sync [OF assms(1)])
qed

lemma unat_sum_list: "unat (sum_list bs :: byte) = sum_list (map unat bs) mod 256"
  by (induction bs) (simp_all add: unat_word_ariths mod_add_right_eq)

lemma unat_chksum:
  "unat (H + H + L + sum_list bs :: byte) = (unat H + unat H + unat L + sum_list (map unat bs)) mod 256"
  by (simp add: unat_word_ariths unat_sum_list mod_simps flip: mult_2)


lemma packet_length_byte:
  assumes "length ps + 1 < 256"
  shows "unat (of_nat (length ps + 1) :: byte) = length ps + 1"
  by (rule of_nat_inverse [OF refl]) (use assms in simp)

lemma decode_frame:
  assumes "state r = WAITFORPACKET" and "length (payload r) = maxPayloadSize cfg"
    and "ps \<noteq> []" and "unat L = length ps + 1" and "unat L \<le> maxPayloadSize cfg"
  shows "\<exists>r'. feed cfg r
                ((INCOMING_HEADER_BYTE cfg # INCOMING_HEADER_BYTE cfg # L # ps) @
                 [INCOMING_HEADER_BYTE cfg + INCOMING_HEADER_BYTE cfg + L + sum_list ps]) = Inr r'
           \<and> state r' = WAITFORHANDLING
           \<and> currPlSz r' = int (length ps)
           \<and> plCntr r' = int (length ps)
           \<and> payload r' = ps @ drop (length ps) (payload r)"
proof -
  let ?H = "INCOMING_HEADER_BYTE cfg"
  have "0 < length ps" using assms(3) by simp
  then have two: "2 \<le> unat L" using assms(4) by linarith
  have len: "length ps \<le> unat L - 1" using assms(4) by simp
  have "\<exists>r1. feed cfg r (?H # ?H # L # ps) = Inr r1
           \<and> state r1 = (if length ps = unat L - 1 then CHKSUM else PAYLOAD)
           \<and> plCntr r1 = int (length ps)
           \<and> currPlSz r1 = int (unat L - 1)
           \<and> chksum r1 = ?H + ?H + L + sum_list ps
           \<and> payload r1 = ps @ drop (length ps) (payload r)"
    by (rule feed_frame [OF assms(1) two assms(5) assms(2) len])
  then obtain r1 where fd: "feed cfg r (?H # ?H # L # ps) = Inr r1"
      and st0: "state r1 = (if length ps = unat L - 1 then CHKSUM else PAYLOAD)"
      and cn: "plCntr r1 = int (length ps)"
      and sz0: "currPlSz r1 = int (unat L - 1)"
      and ck: "chksum r1 = ?H + ?H + L + sum_list ps"
      and pl: "payload r1 = ps @ drop (length ps) (payload r)"
    by blast
  have st: "state r1 = CHKSUM" using st0 assms(4) by simp
  have sz: "currPlSz r1 = int (length ps)" using sz0 assms(4) by simp
  let ?c = "?H + ?H + L + sum_list ps"
  let ?r' = "r1\<lparr>currByte := ?c, state := WAITFORHANDLING\<rparr>"
  have "switch_state cfg (r1\<lparr>currByte := ?c\<rparr>) = Inr ?r'"
    by (simp add: switch_CHKSUM [OF st] ck)
  then have last: "feed cfg r1 [?c] = Inr ?r'"
    by (simp add: feed_Cons feed_Nil)
  have "feed cfg r ((?H # ?H # L # ps) @ [?c]) = Inr ?r'"
    by (simp only: feed_append fd sum.case last)
  moreover have "state ?r' = WAITFORHANDLING" by simp
  moreover have "currPlSz ?r' = int (length ps)" using sz by simp
  moreover have "plCntr ?r' = int (length ps)" using cn by simp
  moreover have "payload ?r' = ps @ drop (length ps) (payload r)" using pl by simp
  ultimately show ?thesis by blast
qed

lemma decode_packet:
  assumes "state r = WAITFORPACKET" and "length (payload r) = maxPayloadSize cfg"
    and "ps \<noteq> []" and "length ps + 1 \<le> maxPayloadSize cfg" and "length ps + 1 < 256"
  shows "\<exists>r'. feed cfg r (packet cfg ps) = Inr r'
           \<and> state r' = WAITFORHANDLING
           \<and> currPlSz r' = int (length ps)
           \<and> plCntr r' = int (length ps)
           \<and> payload r' = ps @ drop (length ps) (payload r)"
proof -
  define L :: byte where "L = of_nat (length ps + 1)"
  have L: "unat L = length ps + 1"
    unfolding L_def by (rule packet_length_byte [OF assms(5)])
  have pk: "packet cfg ps =
      (INCOMING_HEADER_BYTE cfg # INCOMING_HEADER_BYTE cfg # L # ps) @
      [INCOMING_HEADER_BYTE cfg + INCOMING_HEADER_BYTE cfg + L + sum_list ps]"
    unfolding packet_def L_def by simp
  have le: "unat L \<le> maxPayloadSize cfg" using assms(4) L by simp
  show ?thesis
    unfolding pk by (rule decode_frame [OF assms(1,2,3) L le])
qed


section \<open>Acknowledgment\<close>

text \<open>
  C8. In every decoder state, \<^verbatim>\<open>payloadHandled\<close> sets the expected payload length to
  the sentinel \<open>-1\<close> and the state to \<open>WAITFORPACKET\<close>, and changes nothing else: the
  current byte, the fill count, the checksum and the payload buffer are as before.
\<close>

theorem payloadHandled_resets:
  "currPlSz (payloadHandled r) = - 1
   \<and> state (payloadHandled r) = WAITFORPACKET
   \<and> currByte (payloadHandled r) = currByte r
   \<and> plCntr (payloadHandled r) = plCntr r
   \<and> chksum (payloadHandled r) = chksum r
   \<and> payload (payloadHandled r) = payload r"
  by (simp add: payloadHandled_def)

section \<open>Decoding a packet\<close>

text \<open>
  C1 (as amended). A packet with two synchronization bytes, a length byte \<open>LEN\<close> with
  \<open>2 \<le> LEN \<le> maxPayloadSize\<close>, \<open>LEN - 1\<close> payload bytes and the 8-bit sum of all of
  these as checksum byte, delivered one byte per call to a decoder in \<open>WAITFORPACKET\<close>
  whose buffer holds \<open>maxPayloadSize\<close> bytes, leaves the decoder in \<open>WAITFORHANDLING\<close>
  with expected payload length \<open>LEN - 1\<close> and the payload in the first \<open>LEN - 1\<close> bytes
  of the buffer.
\<close>

theorem valid_packet_decodes:
  assumes "state r = WAITFORPACKET" and "length (payload r) = maxPayloadSize cfg"
    and "ps \<noteq> []" and "length ps + 1 \<le> maxPayloadSize cfg" and "length ps + 1 < 256"
  shows "\<exists>r'. feed cfg r (packet cfg ps) = Inr r'
           \<and> state r' = WAITFORHANDLING
           \<and> currPlSz r' = int (length ps)
           \<and> take (length ps) (payload r') = ps"
proof -
  obtain r' where "feed cfg r (packet cfg ps) = Inr r'" "state r' = WAITFORHANDLING"
      "currPlSz r' = int (length ps)" "payload r' = ps @ drop (length ps) (payload r)"
    using decode_packet [OF assms] by blast
  then show ?thesis by simp
qed

text \<open>
  With \<open>SYNC = 0xAA\<close> the packet for the payload \<open>10 20\<close> is \<open>AA AA 03 10 20 87\<close>, and
  its six bytes leave the decoder in \<open>WAITFORHANDLING\<close> with that payload.
\<close>

theorem valid_packet_decodes_witness:
  "state (SerialReader_new zeroed_storage) = WAITFORPACKET
   \<and> length (payload (SerialReader_new zeroed_storage)) = maxPayloadSize example_config
   \<and> [0x10, 0x20 :: byte] \<noteq> []
   \<and> length [0x10, 0x20 :: byte] + 1 \<le> maxPayloadSize example_config
   \<and> packet example_config [0x10, 0x20] = [0xAA, 0xAA, 0x03, 0x10, 0x20, 0x87]
   \<and> (\<exists>r'. feed example_config (SerialReader_new zeroed_storage)
               [0xAA, 0xAA, 0x03, 0x10, 0x20, 0x87] = Inr r'
           \<and> state r' = WAITFORHANDLING \<and> currPlSz r' = 2 \<and> take 2 (payload r') = [0x10, 0x20])"
proof -
  have pk: "packet example_config [0x10, 0x20] = [0xAA, 0xAA, 0x03, 0x10, 0x20, 0x87]"
    by (simp add: packet_def example_config_def)
  have h1: "state (SerialReader_new zeroed_storage) = WAITFORPACKET"
    by (simp add: SerialReader_new_def)
  have h2: "length (payload (SerialReader_new zeroed_storage)) = maxPayloadSize example_config"
    by (simp add: SerialReader_new_def zeroed_storage_def example_config_def)
  have h3: "[0x10, 0x20 :: byte] \<noteq> []" by simp
  have h4: "length [0x10, 0x20 :: byte] + 1 \<le> maxPayloadSize example_config"
    by (simp add: example_config_def)
  have h5: "length [0x10, 0x20 :: byte] + 1 < 256" by simp
  show ?thesis
    using valid_packet_decodes [OF h1 h2 h3 h4 h5] h1 h2 h4 by (simp add: pk numeral_2_eq_2)
qed

text \<open>
  The six bytes \<open>AA AA 03 10 20 F9\<close> do not: \<open>0xF9\<close> is not the sum modulo 256 of the
  five bytes before it (that is \<open>0x87\<close>), and the decoder goes back to \<open>WAITFORPACKET\<close>.
\<close>

theorem spec_checksum_rejected:
  "feed example_config (SerialReader_new zeroed_storage) [0xAA, 0xAA, 0x03, 0x10, 0x20, 0xF9] =
     Inr \<lparr>state = WAITFORPACKET, currByte = 0xF9, currPlSz = 2, plCntr = 2, chksum = 0x87,
          payload = [0x10, 0x20, 0, 0]\<rparr>"
  by (simp add: example_eval)

section \<open>The length byte\<close>

text \<open>
  C3 (as amended). In \<open>HEADER2\<close>, with \<open>2 \<le> maxPayloadSize < 256\<close>: the length byte 0
  is rejected and the decoder goes back to \<open>WAITFORPACKET\<close>; the length byte
  \<open>maxPayloadSize\<close> is the largest accepted one and the \<open>maxPayloadSize - 1\<close> payload bytes
  that follow are all stored, after which the checksum is awaited; every length byte above
  \<open>maxPayloadSize\<close>, so \<open>maxPayloadSize + 1\<close> and \<open>maxPayloadSize + 2\<close>, is rejected.
\<close>

theorem length_byte_bounds:
  assumes "state r = HEADER2" and "length (payload r) = maxPayloadSize cfg"
    and "2 \<le> maxPayloadSize cfg" and "maxPayloadSize cfg < 256"
    and "length ps = maxPayloadSize cfg - 1"
  shows "readUpdate cfg r [0] = Inr (Some (- 1), r\<lparr>currByte := 0, state := WAITFORPACKET\<rparr>, [])
     \<and> (\<exists>r'. feed cfg r (of_nat (maxPayloadSize cfg) # ps) = Inr r'
            \<and> state r' = CHKSUM
            \<and> currPlSz r' = int (maxPayloadSize cfg) - 1
            \<and> plCntr r' = int (maxPayloadSize cfg) - 1
            \<and> take (maxPayloadSize cfg - 1) (payload r') = ps)
     \<and> (\<forall>b. maxPayloadSize cfg < unat b \<longrightarrow>
            readUpdate cfg r [b] = Inr (Some (- 1), r\<lparr>currByte := b, state := WAITFORPACKET\<rparr>, []))"
proof (intro conjI allI impI)
  show "readUpdate cfg r [0] = Inr (Some (- 1), r\<lparr>currByte := 0, state := WAITFORPACKET\<rparr>, [])"
    by (simp add: readUpdate_Cons switch_HEADER2_reject [OF assms(1)])
next
  fix b :: byte
  assume "maxPayloadSize cfg < unat b"
  then show "readUpdate cfg r [b] = Inr (Some (- 1), r\<lparr>currByte := b, state := WAITFORPACKET\<rparr>, [])"
    by (simp add: readUpdate_Cons switch_HEADER2_reject [OF assms(1)])
next
  define L :: byte where "L = of_nat (maxPayloadSize cfg)"
  have L: "unat L = maxPayloadSize cfg"
    unfolding L_def by (rule of_nat_inverse [OF refl]) (use assms(4) in simp)
  have "\<exists>r'. feed cfg r (L # ps) = Inr r'
           \<and> state r' = (if length ps = unat L - 1 then CHKSUM else PAYLOAD)
           \<and> plCntr r' = int (length ps)
           \<and> currPlSz r' = int (unat L - 1)
           \<and> chksum r' = INCOMING_HEADER_BYTE cfg + INCOMING_HEADER_BYTE cfg + L + sum_list ps
           \<and> payload r' = ps @ drop (length ps) (payload r)"
    using assms L by (intro feed_length_byte) simp_all
  then obtain r' where "feed cfg r (L # ps) = Inr r'"
      "state r' = (if length ps = unat L - 1 then CHKSUM else PAYLOAD)"
      "plCntr r' = int (length ps)" "currPlSz r' = int (unat L - 1)"
      "payload r' = ps @ drop (length ps) (payload r)"
    by blast
  then have "feed cfg r (L # ps) = Inr r' \<and> state r' = CHKSUM
      \<and> currPlSz r' = int (maxPayloadSize cfg) - 1 \<and> plCntr r' = int (maxPayloadSize cfg) - 1
      \<and> take (maxPayloadSize cfg - 1) (payload r') = ps"
    using assms(2,3,5) L by (simp add: of_nat_diff)
  then show "\<exists>r'. feed cfg r (of_nat (maxPayloadSize cfg) # ps) = Inr r'
            \<and> state r' = CHKSUM
            \<and> currPlSz r' = int (maxPayloadSize cfg) - 1
            \<and> plCntr r' = int (maxPayloadSize cfg) - 1
            \<and> take (maxPayloadSize cfg - 1) (payload r') = ps"
    unfolding L_def by blast
qed

theorem length_byte_bounds_witness:
  "state (zeroed_storage\<lparr>state := HEADER2\<rparr>) = HEADER2
   \<and> length (payload (zeroed_storage\<lparr>state := HEADER2\<rparr>)) = maxPayloadSize example_config
   \<and> 2 \<le> maxPayloadSize example_config \<and> maxPayloadSize example_config < 256
   \<and> length [0x10, 0x20, 0x30 :: byte] = maxPayloadSize example_config - 1
   \<and> readUpdate example_config (zeroed_storage\<lparr>state := HEADER2\<rparr>) [0] =
        Inr (Some (- 1), zeroed_storage\<lparr>currByte := 0, state := WAITFORPACKET\<rparr>, [])
   \<and> (\<exists>r'. feed example_config (zeroed_storage\<lparr>state := HEADER2\<rparr>) [4, 0x10, 0x20, 0x30] = Inr r'
          \<and> state r' = CHKSUM \<and> currPlSz r' = 3 \<and> plCntr r' = 3
          \<and> take 3 (payload r') = [0x10, 0x20, 0x30])
   \<and> maxPayloadSize example_config < unat (5 :: byte)
   \<and> readUpdate example_config (zeroed_storage\<lparr>state := HEADER2\<rparr>) [5] =
        Inr (Some (- 1), zeroed_storage\<lparr>currByte := 5, state := WAITFORPACKET\<rparr>, [])
   \<and> maxPayloadSize example_config < unat (6 :: byte)
   \<and> readUpdate example_config (zeroed_storage\<lparr>state := HEADER2\<rparr>) [6] =
        Inr (Some (- 1), zeroed_storage\<lparr>currByte := 6, state := WAITFORPACKET\<rparr>, [])"
  using length_byte_bounds [of "zeroed_storage\<lparr>state := HEADER2\<rparr>" example_config "[0x10, 0x20, 0x30]"]
  by (simp add: example_config_def zeroed_storage_def numeral_3_eq_3)

text \<open>
  With \<open>maxPayloadSize = 4\<close> the length byte 5 is rejected, and the length byte 1 is
  accepted: it starts the accumulation of a payload whose expected length is 0.
\<close>

theorem length_byte_one_and_max_plus_one:
  "readUpdate example_config (zeroed_storage\<lparr>state := HEADER2\<rparr>) [5] =
     Inr (Some (- 1), zeroed_storage\<lparr>currByte := 5, state := WAITFORPACKET\<rparr>, [])
   \<and> readUpdate example_config (zeroed_storage\<lparr>state := HEADER2\<rparr>) [1] =
     Inr (Some (- 1), zeroed_storage\<lparr>currByte := 1, currPlSz := 0, plCntr := 0, state := PAYLOAD,
                                     chksum := 0x55\<rparr>, [])"
  by (simp add: example_eval)

section \<open>Framing errors\<close>

text \<open>
  C4. A byte other than the synchronization byte in \<open>HEADER1\<close>, a length byte that is 0 or
  above \<open>maxPayloadSize\<close> in \<open>HEADER2\<close>, and a byte other than the running checksum in
  \<open>CHKSUM\<close> each put the decoder back to \<open>WAITFORPACKET\<close>, and the call returns \<open>-1\<close>:
  the value every call returns that read a byte and did not end in \<open>WAITFORHANDLING\<close>, so
  the caller cannot tell a framing error from a packet in progress.
\<close>

theorem framing_error_resyncs:
  assumes "(state r = HEADER1 \<and> b \<noteq> INCOMING_HEADER_BYTE cfg)
         \<or> (state r = HEADER2 \<and> (b = 0 \<or> maxPayloadSize cfg < unat b))
         \<or> (state r = CHKSUM \<and> b \<noteq> chksum r)"
  shows "readUpdate cfg r (b # rest) =
           Inr (Some (- 1), r\<lparr>currByte := b, state := WAITFORPACKET\<rparr>, rest)
       \<and> (\<forall>r0 b0 rest0 v r1 rest1.
             readUpdate cfg r0 (b0 # rest0) = Inr (v, r1, rest1) \<and> state r1 \<noteq> WAITFORHANDLING
             \<longrightarrow> v = Some (- 1))"
proof
  from assms consider
      (sync) "state r = HEADER1" "b \<noteq> INCOMING_HEADER_BYTE cfg"
    | (len) "state r = HEADER2" "b = 0 \<or> maxPayloadSize cfg < unat b"
    | (sum) "state r = CHKSUM" "b \<noteq> chksum r"
    by blast
  then show "readUpdate cfg r (b # rest) =
           Inr (Some (- 1), r\<lparr>currByte := b, state := WAITFORPACKET\<rparr>, rest)"
  proof cases
    case sync
    then show ?thesis by (simp add: readUpdate_Cons switch_HEADER1)
  next
    case len
    then show ?thesis by (simp add: readUpdate_Cons switch_HEADER2_reject)
  next
    case sum
    then have "chksum r \<noteq> b" by auto
    with sum show ?thesis by (simp add: readUpdate_Cons switch_CHKSUM)
  qed
next
  show "\<forall>r0 b0 rest0 v r1 rest1.
             readUpdate cfg r0 (b0 # rest0) = Inr (v, r1, rest1) \<and> state r1 \<noteq> WAITFORHANDLING
             \<longrightarrow> v = Some (- 1)"
    by (auto dest: readUpdate_returns)
qed

theorem framing_error_resyncs_witness:
  "state (zeroed_storage\<lparr>state := HEADER1\<rparr>) = HEADER1 \<and> 0x55 \<noteq> INCOMING_HEADER_BYTE example_config
   \<and> readUpdate example_config (zeroed_storage\<lparr>state := HEADER1\<rparr>) [0x55, 0xAA] =
        Inr (Some (- 1), zeroed_storage\<lparr>currByte := 0x55, state := WAITFORPACKET\<rparr>, [0xAA])
   \<and> state (zeroed_storage\<lparr>state := HEADER2\<rparr>) = HEADER2 \<and> maxPayloadSize example_config < unat (9 :: byte)
   \<and> readUpdate example_config (zeroed_storage\<lparr>state := HEADER2\<rparr>) [9, 0xAA] =
        Inr (Some (- 1), zeroed_storage\<lparr>currByte := 9, state := WAITFORPACKET\<rparr>, [0xAA])
   \<and> state (zeroed_storage\<lparr>state := CHKSUM, chksum := 0x87\<rparr>) = CHKSUM
   \<and> 0xF9 \<noteq> chksum (zeroed_storage\<lparr>state := CHKSUM, chksum := 0x87\<rparr>)
   \<and> readUpdate example_config (zeroed_storage\<lparr>state := CHKSUM, chksum := 0x87\<rparr>) [0xF9, 0xAA] =
        Inr (Some (- 1), zeroed_storage\<lparr>currByte := 0xF9, state := WAITFORPACKET, chksum := 0x87\<rparr>, [0xAA])"
  using framing_error_resyncs [of "zeroed_storage\<lparr>state := HEADER1\<rparr>" "0x55" example_config "[0xAA]"]
    framing_error_resyncs [of "zeroed_storage\<lparr>state := HEADER2\<rparr>" 9 example_config "[0xAA]"]
    framing_error_resyncs [of "zeroed_storage\<lparr>state := CHKSUM, chksum := 0x87\<rparr>" "0xF9" example_config "[0xAA]"]
  by (simp add: example_config_def zeroed_storage_def)

section \<open>The value of a call\<close>

text \<open>
  C5. Called with no byte available, \<^verbatim>\<open>readUpdate\<close> ends without executing a
  \<^verbatim>\<open>return\<close> statement, in every decoder state: both \<^verbatim>\<open>return\<close> statements are inside
  the \<^verbatim>\<open>while\<close> body, which is not entered. The call does not return the sentinel \<open>-1\<close>,
  nor any other value.
\<close>

theorem readUpdate_nothing_available:
  "readUpdate cfg r [] = Inl MissingReturn
   \<and> readUpdate cfg r [] \<noteq> Inr (Some (- 1), r, [])"
  by (simp add: readUpdate_def)

section \<open>A payload waiting to be handled\<close>

lemma feed_WAITFORHANDLING:
  assumes "state r = WAITFORHANDLING"
  shows "feed cfg r bs = Inr (r\<lparr>currByte := last (currByte r # bs)\<rparr>)"
  using assms
proof (induction bs arbitrary: r)
  case Nil
  then show ?case by (simp add: feed_Nil)
next
  case (Cons b bs)
  have "feed cfg r (b # bs) = feed cfg (r\<lparr>currByte := b\<rparr>) bs"
    by (simp add: feed_Cons switch_WAITFORHANDLING [OF Cons.prems])
  also have "\<dots> = Inr (r\<lparr>currByte := b\<rparr>\<lparr>currByte := last (currByte (r\<lparr>currByte := b\<rparr>) # bs)\<rparr>)"
    using Cons.prems by (intro Cons.IH) simp
  finally show ?case by simp
qed

text \<open>
  C6 (as amended). In \<open>WAITFORHANDLING\<close> a call with a byte available reads that byte and
  drops it, and returns the expected payload length; the state, the payload buffer, the
  expected payload length, the fill count and the checksum stay as they are, however many
  bytes arrive, until \<^verbatim>\<open>payloadHandled\<close> is called.
\<close>

theorem ready_discards_bytes:
  assumes "state r = WAITFORHANDLING"
  shows "readUpdate cfg r (b # rest) = Inr (Some (currPlSz r), r\<lparr>currByte := b\<rparr>, rest)
       \<and> (\<exists>r'. feed cfg r bs = Inr r' \<and> state r' = WAITFORHANDLING \<and> payload r' = payload r
              \<and> currPlSz r' = currPlSz r \<and> plCntr r' = plCntr r \<and> chksum r' = chksum r)"
  using assms
  by (simp add: readUpdate_Cons switch_WAITFORHANDLING feed_WAITFORHANDLING)

theorem ready_discards_bytes_witness:
  "state example_ready = WAITFORHANDLING
   \<and> readUpdate example_config example_ready [0x55, 0x66] =
        Inr (Some 2, example_ready\<lparr>currByte := 0x55\<rparr>, [0x66])
   \<and> (\<exists>r'. feed example_config example_ready [0x55, 0x66] = Inr r' \<and> state r' = WAITFORHANDLING
          \<and> payload r' = [0x10, 0x20, 0, 0] \<and> currPlSz r' = 2)"
  using ready_discards_bytes [of example_ready example_config "0x55" "[0x66]" "[0x55, 0x66]"]
  by (auto simp: example_ready_def)

text \<open>
  After the packet \<open>AA AA 03 10 20 87\<close> the decoder is in \<open>WAITFORHANDLING\<close>; the next
  call takes the byte \<open>55\<close> off the source, which then holds \<open>66\<close> only.
\<close>

theorem ready_consumes_a_byte:
  "feed example_config (SerialReader_new zeroed_storage) [0xAA, 0xAA, 0x03, 0x10, 0x20, 0x87] =
     Inr example_ready
   \<and> readUpdate example_config example_ready [0x55, 0x66] =
        Inr (Some 2, example_ready\<lparr>currByte := 0x55\<rparr>, [0x66])
   \<and> [0x66] \<noteq> [0x55, 0x66 :: byte]"
  by (simp add: example_eval example_ready_def)

section \<open>The running checksum\<close>

lemma feed_header:
  assumes "state r = WAITFORPACKET" and "L \<noteq> 0" and "unat L \<le> maxPayloadSize cfg"
  shows "\<exists>r'. feed cfg r [INCOMING_HEADER_BYTE cfg, INCOMING_HEADER_BYTE cfg, L] = Inr r'
           \<and> state r' = PAYLOAD \<and> plCntr r' = 0 \<and> currPlSz r' = uint L - 1
           \<and> chksum r' = INCOMING_HEADER_BYTE cfg + INCOMING_HEADER_BYTE cfg + L"
proof -
  let ?r0 = "r\<lparr>currByte := INCOMING_HEADER_BYTE cfg, state := HEADER2\<rparr>"
  let ?r1 = "?r0\<lparr>currByte := L, currPlSz := uint L - 1, plCntr := 0, state := PAYLOAD,
            chksum := INCOMING_HEADER_BYTE cfg + INCOMING_HEADER_BYTE cfg + L\<rparr>"
  have s: "state ?r0 = HEADER2" by simp
  have a: "feed cfg r [INCOMING_HEADER_BYTE cfg, INCOMING_HEADER_BYTE cfg, L] = feed cfg ?r0 [L]"
    by (rule feed_sync [OF assms(1)])
  have b: "feed cfg ?r0 [L] = Inr ?r1"
    by (simp only: feed_Cons switch_HEADER2_accept [OF s assms(2,3)] sum.case feed_Nil)
  have "feed cfg r [INCOMING_HEADER_BYTE cfg, INCOMING_HEADER_BYTE cfg, L] = Inr ?r1"
    by (simp only: a b)
  moreover have "state ?r1 = PAYLOAD \<and> plCntr ?r1 = 0 \<and> currPlSz ?r1 = uint L - 1
      \<and> chksum ?r1 = INCOMING_HEADER_BYTE cfg + INCOMING_HEADER_BYTE cfg + L"
    by simp
  ultimately show ?thesis by blast
qed

text \<open>
  The running checksum is an 8-bit unsigned value. After the two synchronization bytes, an
  accepted length byte \<open>L\<close> and any number of payload bytes read so far, it is
  \<open>(SYNC + SYNC + L + the payload bytes read) mod 256\<close>: with no payload byte yet this is the
  seed, and each further payload byte is added modulo 256. Once the \<open>L - 1\<close> payload bytes
  of a packet with \<open>L \<ge> 2\<close> are in, the next byte \<open>c\<close> leads to \<open>WAITFORHANDLING\<close> exactly
  when \<open>c\<close> is that sum modulo 256, and to \<open>WAITFORPACKET\<close> otherwise.
\<close>

theorem chksum_modulo_256:
  assumes "state r = WAITFORPACKET" and "length (payload r) = maxPayloadSize cfg"
    and "1 \<le> unat L" and "unat L \<le> maxPayloadSize cfg" and "length ps \<le> unat L - 1"
  shows "\<exists>r1. feed cfg r (INCOMING_HEADER_BYTE cfg # INCOMING_HEADER_BYTE cfg # L # ps) = Inr r1
           \<and> unat (chksum r1) =
               (unat (INCOMING_HEADER_BYTE cfg) + unat (INCOMING_HEADER_BYTE cfg) + unat L
                + sum_list (map unat ps)) mod 256
           \<and> (2 \<le> unat L \<and> length ps = unat L - 1 \<longrightarrow>
                (\<forall>c. \<exists>r2. feed cfg r1 [c] = Inr r2
                   \<and> (state r2 = WAITFORHANDLING \<or> state r2 = WAITFORPACKET)
                   \<and> (state r2 = WAITFORHANDLING \<longleftrightarrow>
                        unat c = (unat (INCOMING_HEADER_BYTE cfg) + unat (INCOMING_HEADER_BYTE cfg)
                                  + unat L + sum_list (map unat ps)) mod 256)))"
proof (cases "2 \<le> unat L")
  case False
  let ?H = "INCOMING_HEADER_BYTE cfg"
  have ps: "ps = []" using False assms(3,5) by simp
  have L0: "L \<noteq> 0" using assms(3) by auto
  obtain r1 where fd: "feed cfg r [?H, ?H, L] = Inr r1" and ck: "chksum r1 = ?H + ?H + L"
    using feed_header [OF assms(1) L0 assms(4)] by blast
  have "unat (chksum r1) = (unat ?H + unat ?H + unat L + sum_list (map unat ps)) mod 256"
    unfolding ck ps using unat_chksum [of ?H L "[]"] by simp
  then show ?thesis
    using fd False ps by auto
next
  case two: True
  let ?H = "INCOMING_HEADER_BYTE cfg"
  let ?s = "(unat ?H + unat ?H + unat L + sum_list (map unat ps)) mod 256"
  obtain r1 where fd: "feed cfg r (?H # ?H # L # ps) = Inr r1"
      and st: "state r1 = (if length ps = unat L - 1 then CHKSUM else PAYLOAD)"
      and ck: "chksum r1 = ?H + ?H + L + sum_list ps"
    using feed_frame [OF assms(1) two assms(4,2,5)] by blast
  have un: "unat (chksum r1) = ?s"
    unfolding ck by (rule unat_chksum)
  have acc: "\<exists>r2. feed cfg r1 [c] = Inr r2
                   \<and> (state r2 = WAITFORHANDLING \<or> state r2 = WAITFORPACKET)
                   \<and> (state r2 = WAITFORHANDLING \<longleftrightarrow> unat c = ?s)"
    if full: "length ps = unat L - 1" for c
  proof -
    have c: "state r1 = CHKSUM" using st full by simp
    have eq: "(chksum r1 = c) = (unat c = ?s)"
      using un by (auto simp: word_unat_eq_iff)
    show ?thesis
      by (simp add: feed_Cons feed_Nil switch_CHKSUM [OF c] eq)
  qed
  show ?thesis
    using fd un acc by blast
qed

theorem chksum_modulo_256_witness:
  "state (SerialReader_new zeroed_storage) = WAITFORPACKET
   \<and> length (payload (SerialReader_new zeroed_storage)) = maxPayloadSize example_config
   \<and> 1 \<le> unat (3 :: byte) \<and> unat (3 :: byte) \<le> maxPayloadSize example_config
   \<and> 2 \<le> unat (3 :: byte) \<and> length [0x10, 0x20 :: byte] = unat (3 :: byte) - 1
   \<and> (\<exists>r1. feed example_config (SerialReader_new zeroed_storage) [0xAA, 0xAA, 3, 0x10, 0x20] = Inr r1
          \<and> unat (chksum r1) = 135
          \<and> (\<exists>r2. feed example_config r1 [0x87] = Inr r2 \<and> state r2 = WAITFORHANDLING)
          \<and> (\<exists>r2. feed example_config r1 [0xF9] = Inr r2 \<and> state r2 = WAITFORPACKET))"
proof -
  have h1: "state (SerialReader_new zeroed_storage) = WAITFORPACKET"
    by (simp add: SerialReader_new_def)
  have h2: "length (payload (SerialReader_new zeroed_storage)) = maxPayloadSize example_config"
    by (simp add: SerialReader_new_def zeroed_storage_def example_config_def)
  have h3: "1 \<le> unat (3 :: byte)" by simp
  have h4: "unat (3 :: byte) \<le> maxPayloadSize example_config"
    by (simp add: example_config_def)
  have h5: "length [0x10, 0x20 :: byte] \<le> unat (3 :: byte) - 1" by simp
  have h6: "2 \<le> unat (3 :: byte) \<and> length [0x10, 0x20 :: byte] = unat (3 :: byte) - 1" by simp
  have H: "INCOMING_HEADER_BYTE example_config = 0xAA" by (simp add: example_config_def)
  obtain r1 where r1: "feed example_config (SerialReader_new zeroed_storage) [0xAA, 0xAA, 3, 0x10, 0x20] = Inr r1"
      "unat (chksum r1) = 135"
      "\<And>c. \<exists>r2. feed example_config r1 [c] = Inr r2
                   \<and> (state r2 = WAITFORHANDLING \<or> state r2 = WAITFORPACKET)
                   \<and> (state r2 = WAITFORHANDLING \<longleftrightarrow> unat c = 135)"
    using chksum_modulo_256 [OF h1 h2 h3 h4 h5] h6 unfolding H by auto
  have a: "\<exists>r2. feed example_config r1 [0x87] = Inr r2 \<and> state r2 = WAITFORHANDLING"
    using r1(3) [of "0x87"] by auto
  have b: "\<exists>r2. feed example_config r1 [0xF9] = Inr r2 \<and> state r2 = WAITFORPACKET"
    using r1(3) [of "0xF9"] by auto
  show ?thesis using h1 h2 h3 h4 h6 r1(1,2) a b by blast
qed

subsection \<open>The length byte 1\<close>

text \<open>
  The length byte 1 passes the test of \<open>HEADER2\<close> and seeds the checksum, with an expected
  payload length of 0. In \<open>PAYLOAD\<close> the byte is stored and the fill count incremented
  before the two are compared, so the fill count is never 0 at the comparison: whatever
  bytes follow, the decoder stays in \<open>PAYLOAD\<close> until it writes past the buffer.
\<close>

lemma zero_length_never_completes:
  assumes "state r = PAYLOAD" and "currPlSz r = 0" and "0 \<le> plCntr r"
  shows "feed cfg r bs = Inl BufferOverrun
       \<or> (\<exists>r'. feed cfg r bs = Inr r' \<and> state r' = PAYLOAD \<and> currPlSz r' = 0 \<and> 0 \<le> plCntr r')"
  using assms
proof (induction bs arbitrary: r)
  case Nil
  then show ?case by (simp add: feed_Nil)
next
  case (Cons b bs)
  show ?case
  proof (cases "nat (plCntr r) < length (payload r)")
    case False
    then have "switch_state cfg (r\<lparr>currByte := b\<rparr>) = Inl BufferOverrun"
      using Cons.prems(1) by (simp add: switch_state_def)
    then show ?thesis by (simp add: feed_Cons)
  next
    case True
    have c: "plCntr r = int (nat (plCntr r))" using Cons.prems(3) by simp
    let ?r' = "r\<lparr>currByte := b, payload := (payload r)[nat (plCntr r) := b],
                plCntr := int (nat (plCntr r)) + 1, chksum := chksum r + b,
                state := (if int (nat (plCntr r)) + 1 = currPlSz r then CHKSUM else PAYLOAD)\<rparr>"
    have step: "feed cfg r (b # bs) = feed cfg ?r' bs"
      by (simp only: feed_Cons switch_PAYLOAD [OF Cons.prems(1) c True] sum.case)
    have "state ?r' = PAYLOAD" "currPlSz ?r' = 0" "0 \<le> plCntr ?r'"
      using Cons.prems(2,3) by simp_all
    then show ?thesis
      unfolding step by (rule Cons.IH)
  qed
qed

lemma length_one_never_accepted:
  assumes "state r = WAITFORPACKET" and "1 \<le> maxPayloadSize cfg"
  shows "feed cfg r ([INCOMING_HEADER_BYTE cfg, INCOMING_HEADER_BYTE cfg, 1] @ bs) = Inl BufferOverrun
       \<or> (\<exists>r'. feed cfg r ([INCOMING_HEADER_BYTE cfg, INCOMING_HEADER_BYTE cfg, 1] @ bs) = Inr r'
              \<and> state r' = PAYLOAD)"
proof -
  have one: "(1 :: byte) \<noteq> 0" "unat (1 :: byte) \<le> maxPayloadSize cfg"
    using assms(2) by simp_all
  obtain r0 where r0: "feed cfg r [INCOMING_HEADER_BYTE cfg, INCOMING_HEADER_BYTE cfg, 1] = Inr r0"
      "state r0 = PAYLOAD" "plCntr r0 = 0" "currPlSz r0 = uint (1 :: byte) - 1"
    using feed_header [OF assms(1) one] by blast
  have z: "currPlSz r0 = 0" "0 \<le> plCntr r0" using r0(3,4) by simp_all
  have "feed cfg r ([INCOMING_HEADER_BYTE cfg, INCOMING_HEADER_BYTE cfg, 1] @ bs) = feed cfg r0 bs"
    by (simp only: feed_append r0(1) sum.case)
  then show ?thesis
    using zero_length_never_completes [OF r0(2) z, of cfg bs] by auto
qed

text \<open>
  C7. The running checksum is an 8-bit unsigned accumulator, seeded with
  \<open>(SYNC + SYNC + length byte) mod 256\<close> when a length byte is accepted and increased modulo
  256 by each payload byte, and a packet is accepted exactly when its checksum byte equals
  that sum. The code does not do this for the packet \<open>AA AA 01 55\<close>: the length byte 1 is
  accepted and the checksum seeded with \<open>0x55\<close>, the checksum byte \<open>55\<close> equals it, and the
  byte is stored as payload and added to the checksum, the decoder staying in \<open>PAYLOAD\<close>.
\<close>

theorem length_one_packet_not_accepted:
  "packet example_config [] = [0xAA, 0xAA, 0x01, 0x55]
   \<and> feed example_config (SerialReader_new zeroed_storage) [0xAA, 0xAA, 0x01] =
       Inr \<lparr>state = PAYLOAD, currByte = 0x01, currPlSz = 0, plCntr = 0, chksum = 0x55,
            payload = [0, 0, 0, 0]\<rparr>
   \<and> feed example_config (SerialReader_new zeroed_storage) [0xAA, 0xAA, 0x01, 0x55] =
       Inr \<lparr>state = PAYLOAD, currByte = 0x55, currPlSz = 0, plCntr = 1, chksum = 0xAA,
            payload = [0x55, 0, 0, 0]\<rparr>"
  by (simp add: example_eval)

section \<open>Sending a packet again after the acknowledgment\<close>

lemma feed_snoc_returns:
  assumes "feed cfg r (bs @ [b]) = Inr r'"
  shows "\<exists>t. feed cfg r bs = Inr t
           \<and> readUpdate cfg t [b] =
               Inr (Some (if state r' = WAITFORHANDLING then currPlSz r' else - 1), r', [])"
proof -
  obtain t where t: "feed cfg r bs = Inr t" and f: "feed cfg t [b] = Inr r'"
    using assms by (auto simp: feed_append split: sum.splits)
  from f have sw: "switch_state cfg (t\<lparr>currByte := b\<rparr>) = Inr r'"
    by (auto simp: feed_Cons feed_Nil split: sum.splits)
  show ?thesis
    using t readUpdate_one_byte [OF sw, of "[]"] by blast
qed

lemma packet_not_Nil: "packet cfg ps \<noteq> []"
  by (simp add: packet_def)

lemma feed_empty_packet:
  assumes "state r = WAITFORPACKET" and "0 < length (payload r)"
    and "1 \<le> maxPayloadSize cfg"
  shows "\<exists>r'. feed cfg r (packet cfg []) = Inr r' \<and> state r' = PAYLOAD"
proof -
  let ?H = "INCOMING_HEADER_BYTE cfg"
  let ?r0 = "r\<lparr>currByte := ?H, state := HEADER2\<rparr>"
  let ?r1 = "?r0\<lparr>currByte := 1, currPlSz := uint (1 :: byte) - 1, plCntr := 0, state := PAYLOAD,
            chksum := ?H + ?H + 1\<rparr>"
  have a: "switch_state cfg (?r0\<lparr>currByte := 1\<rparr>) = Inr ?r1"
    using assms(3) by (intro switch_HEADER2_accept) simp_all
  have b: "switch_state cfg (?r1\<lparr>currByte := c\<rparr>) =
      Inr (?r1\<lparr>currByte := c, payload := (payload ?r1)[0 := c], plCntr := int 0 + 1,
                  chksum := chksum ?r1 + c,
                  state := (if int 0 + 1 = currPlSz ?r1 then CHKSUM else PAYLOAD)\<rparr>)" for c
    using assms(2) by (intro switch_PAYLOAD) simp_all
  have "feed cfg r (?H # ?H # [1, ?H + ?H + 1]) = feed cfg ?r0 [1, ?H + ?H + 1]"
    by (rule feed_sync [OF assms(1)])
  also have "\<dots> = feed cfg ?r1 [?H + ?H + 1]"
    by (simp only: feed_Cons [of cfg ?r0] a sum.case)
  finally have c: "feed cfg r (?H # ?H # [1, ?H + ?H + 1]) = feed cfg ?r1 [?H + ?H + 1]" .
  let ?r2 = "?r1\<lparr>currByte := ?H + ?H + 1, payload := (payload ?r1)[0 := ?H + ?H + 1],
                  plCntr := int 0 + 1, chksum := chksum ?r1 + (?H + ?H + 1),
                  state := (if int 0 + 1 = currPlSz ?r1 then CHKSUM else PAYLOAD)\<rparr>"
  have d: "feed cfg ?r1 [?H + ?H + 1] = Inr ?r2"
    by (simp only: feed_Cons [of cfg ?r1] b sum.case feed_Nil)
  have pk: "packet cfg [] = ?H # ?H # [1, ?H + ?H + 1]"
    by (simp add: packet_def)
  have "feed cfg r (packet cfg []) = Inr ?r2"
    unfolding pk by (simp only: c d)
  moreover have "state ?r2 = PAYLOAD" by simp
  ultimately show ?thesis by blast
qed

lemma length_packet: "length (packet cfg ps) = length ps + 4"
  by (simp add: packet_def)

lemma packet_prefix_not_ready:
  assumes "state r = WAITFORPACKET" and "length (payload r) = maxPayloadSize cfg"
    and "ps \<noteq> []" and "length ps + 1 \<le> maxPayloadSize cfg" and "length ps + 1 < 256"
    and "k < length (packet cfg ps)"
  shows "\<exists>t. feed cfg r (take k (packet cfg ps)) = Inr t
           \<and> state t \<noteq> WAITFORHANDLING
           \<and> (k = length (packet cfg ps) - 1 \<longrightarrow> state t = CHKSUM)"
proof -
  let ?H = "INCOMING_HEADER_BYTE cfg"
  define L :: byte where "L = of_nat (length ps + 1)"
  define c :: byte where "c = ?H + ?H + L + sum_list ps"
  have L: "unat L = length ps + 1"
    unfolding L_def by (rule packet_length_byte [OF assms(5)])
  have pk: "packet cfg ps = ?H # ?H # L # ps @ [c]"
    unfolding packet_def L_def c_def by simp
  have k: "k < length ps + 4" using assms(6) by (simp add: length_packet)
  have n: "0 < length ps" using assms(3) by simp
  consider (zero) "k = 0" | (one) "k = 1" | (two) "k = 2" | (more) j where "k = j + 3"
    by (metis add.commute add_2_eq_Suc' less_2_cases not_less_eq numeral_3_eq_3 add_Suc_right
        less_imp_Suc_add not_less_iff_gr_or_eq add.right_neutral One_nat_def numeral_2_eq_2)
  then show ?thesis
  proof cases
    case zero
    then show ?thesis using assms(1) n by (simp add: feed_Nil length_packet)
  next
    case one
    have "take k (packet cfg ps) = [?H]" unfolding pk one by simp
    then show ?thesis
      using n one by (simp add: feed_Cons feed_Nil switch_WAITFORPACKET [OF assms(1)] length_packet)
  next
    case two
    have "take k (packet cfg ps) = [?H, ?H]" unfolding pk two by (simp add: numeral_2_eq_2)
    then show ?thesis
      using n two by (simp add: feed_sync [OF assms(1)] feed_Nil length_packet)
  next
    case (more j)
    have j: "j \<le> length ps" using k more by simp
    have tk: "take k (packet cfg ps) = ?H # ?H # L # take j ps"
      unfolding pk more using j by (simp add: numeral_3_eq_3)
    have two: "2 \<le> unat L" using L n by linarith
    have le: "unat L \<le> maxPayloadSize cfg" using L assms(4) by simp
    have len: "length (take j ps) \<le> unat L - 1" using L j by simp
    obtain t where t: "feed cfg r (?H # ?H # L # take j ps) = Inr t"
        and st: "state t = (if length (take j ps) = unat L - 1 then CHKSUM else PAYLOAD)"
      using feed_frame [OF assms(1) two le assms(2) len] by blast
    have "state t \<noteq> WAITFORHANDLING" using st by simp
    moreover have "k = length (packet cfg ps) - 1 \<longrightarrow> state t = CHKSUM"
      using st L j more by (simp add: length_packet)
    ultimately show ?thesis using t tk by simp
  qed
qed

text \<open>
  C9. Let \<open>P\<close> be a packet of the wire format whose length byte is in the range the
  decoder accepts, and let decoding \<open>P\<close> from \<open>WAITFORPACKET\<close> have reached
  \<open>WAITFORHANDLING\<close>. \<^verbatim>\<open>payloadHandled\<close> puts the decoder back to \<open>WAITFORPACKET\<close>, and
  the same bytes are decoded again from there: every call before the last one returns
  \<open>-1\<close> and leaves the decoder outside \<open>WAITFORHANDLING\<close>, the decoder awaits the checksum
  in \<open>CHKSUM\<close> before the last byte, and the call that reads the last byte reaches
  \<open>WAITFORHANDLING\<close> and returns the same payload length as the first time, with the same
  payload buffer contents.
\<close>

theorem resend_after_acknowledge:
  assumes "state r = WAITFORPACKET" and "length (payload r) = maxPayloadSize cfg"
    and "length ps + 1 \<le> maxPayloadSize cfg" and "length ps + 1 < 256"
    and "feed cfg r (packet cfg ps) = Inr r1" and "state r1 = WAITFORHANDLING"
  shows "state (payloadHandled r1) = WAITFORPACKET
       \<and> (\<exists>t1 t2 r2.
           feed cfg r (butlast (packet cfg ps)) = Inr t1
         \<and> readUpdate cfg t1 [last (packet cfg ps)] = Inr (Some (currPlSz r1), r1, [])
         \<and> feed cfg (payloadHandled r1) (butlast (packet cfg ps)) = Inr t2
         \<and> state t2 = CHKSUM
         \<and> readUpdate cfg t2 [last (packet cfg ps)] = Inr (Some (currPlSz r1), r2, [])
         \<and> feed cfg (payloadHandled r1) (packet cfg ps) = Inr r2
         \<and> state r2 = WAITFORHANDLING
         \<and> currPlSz r2 = currPlSz r1
         \<and> payload r2 = payload r1)
       \<and> (\<forall>k. k < length (packet cfg ps) - 1 \<longrightarrow>
             (\<exists>t t'. feed cfg (payloadHandled r1) (take k (packet cfg ps)) = Inr t
                \<and> state t \<noteq> WAITFORHANDLING
                \<and> readUpdate cfg t [packet cfg ps ! k] = Inr (Some (- 1), t', [])
                \<and> state t' \<noteq> WAITFORHANDLING))"
proof -
  have ne: "ps \<noteq> []"
  proof
    assume e: "ps = []"
    have "0 < length (payload r)" "1 \<le> maxPayloadSize cfg"
      using assms(2,3) by simp_all
    then obtain r' where "feed cfg r (packet cfg []) = Inr r'" "state r' = PAYLOAD"
      using feed_empty_packet [OF assms(1)] by blast
    with assms(5,6) e show False by simp
  qed
  obtain r1' where d1: "feed cfg r (packet cfg ps) = Inr r1'"
      "currPlSz r1' = int (length ps)" "payload r1' = ps @ drop (length ps) (payload r)"
    using decode_packet [OF assms(1,2) ne assms(3,4)] by blast
  have r1: "currPlSz r1 = int (length ps)" "payload r1 = ps @ drop (length ps) (payload r)"
    using d1 assms(5) by simp_all
  have s1: "state (payloadHandled r1) = WAITFORPACKET"
    by (simp add: payloadHandled_def)
  have c1: "length (payload (payloadHandled r1)) = maxPayloadSize cfg"
    using r1(2) assms(2,3) by (simp add: payloadHandled_def)
  obtain r2 where d2: "feed cfg (payloadHandled r1) (packet cfg ps) = Inr r2"
      "state r2 = WAITFORHANDLING" "currPlSz r2 = int (length ps)"
      "payload r2 = ps @ drop (length ps) (payload (payloadHandled r1))"
    using decode_packet [OF s1 c1 ne assms(3,4)] by blast
  have p2: "payload r2 = payload r1"
    using d2(4) r1(2) by (simp add: payloadHandled_def)
  have split: "packet cfg ps = butlast (packet cfg ps) @ [last (packet cfg ps)]"
    using packet_not_Nil by simp
  obtain t1 where t1: "feed cfg r (butlast (packet cfg ps)) = Inr t1"
      "readUpdate cfg t1 [last (packet cfg ps)] =
         Inr (Some (if state r1 = WAITFORHANDLING then currPlSz r1 else - 1), r1, [])"
    using feed_snoc_returns [of cfg r "butlast (packet cfg ps)" "last (packet cfg ps)" r1]
      assms(5) split by auto
  obtain t2 where t2: "feed cfg (payloadHandled r1) (butlast (packet cfg ps)) = Inr t2"
      "readUpdate cfg t2 [last (packet cfg ps)] =
         Inr (Some (if state r2 = WAITFORHANDLING then currPlSz r2 else - 1), r2, [])"
    using feed_snoc_returns [of cfg "payloadHandled r1" "butlast (packet cfg ps)" "last (packet cfg ps)" r2]
      d2(1) split by auto
  have c2: "state t2 = CHKSUM"
  proof -
    have "length (packet cfg ps) - 1 < length (packet cfg ps)"
      by (simp add: length_packet)
    then obtain t where "feed cfg (payloadHandled r1)
          (take (length (packet cfg ps) - 1) (packet cfg ps)) = Inr t" "state t = CHKSUM"
      using packet_prefix_not_ready [OF s1 c1 ne assms(3,4)] by blast
    then show ?thesis
      using t2(1) by (simp add: butlast_conv_take)
  qed
  have "readUpdate cfg t1 [last (packet cfg ps)] = Inr (Some (currPlSz r1), r1, [])"
    using t1(2) assms(6) by simp
  moreover have "readUpdate cfg t2 [last (packet cfg ps)] = Inr (Some (currPlSz r1), r2, [])"
    using t2(2) d2(2,3) r1(1) by simp
  moreover have "currPlSz r2 = currPlSz r1" using d2(3) r1(1) by simp
  ultimately have second: "\<exists>t1 t2 r2.
           feed cfg r (butlast (packet cfg ps)) = Inr t1
         \<and> readUpdate cfg t1 [last (packet cfg ps)] = Inr (Some (currPlSz r1), r1, [])
         \<and> feed cfg (payloadHandled r1) (butlast (packet cfg ps)) = Inr t2
         \<and> state t2 = CHKSUM
         \<and> readUpdate cfg t2 [last (packet cfg ps)] = Inr (Some (currPlSz r1), r2, [])
         \<and> feed cfg (payloadHandled r1) (packet cfg ps) = Inr r2
         \<and> state r2 = WAITFORHANDLING
         \<and> currPlSz r2 = currPlSz r1
         \<and> payload r2 = payload r1"
    using t1(1) t2(1) c2 d2(1,2) p2 by blast
  have before: "\<exists>t t'. feed cfg (payloadHandled r1) (take k (packet cfg ps)) = Inr t
                \<and> state t \<noteq> WAITFORHANDLING
                \<and> readUpdate cfg t [packet cfg ps ! k] = Inr (Some (- 1), t', [])
                \<and> state t' \<noteq> WAITFORHANDLING"
    if k: "k < length (packet cfg ps) - 1" for k
  proof -
    have k0: "k < length (packet cfg ps)" and k1: "Suc k < length (packet cfg ps)"
      using k by simp_all
    obtain t where t: "feed cfg (payloadHandled r1) (take k (packet cfg ps)) = Inr t"
        "state t \<noteq> WAITFORHANDLING"
      using packet_prefix_not_ready [OF s1 c1 ne assms(3,4) k0] by blast
    obtain t' where t': "feed cfg (payloadHandled r1) (take (Suc k) (packet cfg ps)) = Inr t'"
        "state t' \<noteq> WAITFORHANDLING"
      using packet_prefix_not_ready [OF s1 c1 ne assms(3,4) k1] by blast
    have "feed cfg (payloadHandled r1) (take k (packet cfg ps) @ [packet cfg ps ! k]) = Inr t'"
      using t'(1) k0 by (simp add: take_Suc_conv_app_nth)
    then obtain u where u: "feed cfg (payloadHandled r1) (take k (packet cfg ps)) = Inr u"
        "readUpdate cfg u [packet cfg ps ! k] =
           Inr (Some (if state t' = WAITFORHANDLING then currPlSz t' else - 1), t', [])"
      using feed_snoc_returns by blast
    have "u = t" using u(1) t(1) by simp
    then have "readUpdate cfg t [packet cfg ps ! k] = Inr (Some (- 1), t', [])"
      using u(2) t'(2) by simp
    then show ?thesis using t t'(2) by blast
  qed
  show ?thesis
    using s1 second before by blast
qed

theorem resend_after_acknowledge_witness:
  "state (SerialReader_new zeroed_storage) = WAITFORPACKET
   \<and> length (payload (SerialReader_new zeroed_storage)) = maxPayloadSize example_config
   \<and> length [0x10, 0x20 :: byte] + 1 \<le> maxPayloadSize example_config
   \<and> packet example_config [0x10, 0x20] = [0xAA, 0xAA, 0x03, 0x10, 0x20, 0x87]
   \<and> feed example_config (SerialReader_new zeroed_storage) [0xAA, 0xAA, 0x03, 0x10, 0x20, 0x87] =
        Inr example_ready
   \<and> state example_ready = WAITFORHANDLING
   \<and> state (payloadHandled example_ready) = WAITFORPACKET
   \<and> (\<exists>t2 r2. feed example_config (payloadHandled example_ready) [0xAA, 0xAA, 0x03, 0x10, 0x20] = Inr t2
         \<and> state t2 = CHKSUM
         \<and> readUpdate example_config t2 [0x87] = Inr (Some 2, r2, [])
         \<and> feed example_config (payloadHandled example_ready) [0xAA, 0xAA, 0x03, 0x10, 0x20, 0x87] = Inr r2
         \<and> state r2 = WAITFORHANDLING
         \<and> currPlSz r2 = 2
         \<and> payload r2 = [0x10, 0x20, 0, 0])
   \<and> (2 :: nat) < length [0xAA, 0xAA, 0x03, 0x10, 0x20, 0x87 :: byte] - 1
   \<and> (\<exists>t t'. feed example_config (payloadHandled example_ready) [0xAA, 0xAA] = Inr t
         \<and> state t \<noteq> WAITFORHANDLING
         \<and> readUpdate example_config t [0x03] = Inr (Some (- 1), t', [])
         \<and> state t' \<noteq> WAITFORHANDLING)
   \<and> (4 :: nat) < length [0xAA, 0xAA, 0x03, 0x10, 0x20, 0x87 :: byte] - 1
   \<and> (\<exists>t t'. feed example_config (payloadHandled example_ready) [0xAA, 0xAA, 0x03, 0x10] = Inr t
         \<and> state t \<noteq> WAITFORHANDLING
         \<and> readUpdate example_config t [0x20] = Inr (Some (- 1), t', [])
         \<and> state t' \<noteq> WAITFORHANDLING)"
proof -
  let ?P = "[0xAA, 0xAA, 0x03, 0x10, 0x20, 0x87 :: byte]"
  have pk: "packet example_config [0x10, 0x20] = ?P"
    by (simp add: packet_def example_config_def)
  have h1: "state (SerialReader_new zeroed_storage) = WAITFORPACKET"
    by (simp add: SerialReader_new_def)
  have h2: "length (payload (SerialReader_new zeroed_storage)) = maxPayloadSize example_config"
    by (simp add: SerialReader_new_def zeroed_storage_def example_config_def)
  have h3: "length [0x10, 0x20 :: byte] + 1 \<le> maxPayloadSize example_config"
    by (simp add: example_config_def)
  have h4: "length [0x10, 0x20 :: byte] + 1 < 256" by simp
  have h5: "feed example_config (SerialReader_new zeroed_storage) (packet example_config [0x10, 0x20]) =
        Inr example_ready"
    unfolding pk by (simp add: example_eval)
  have h6: "state example_ready = WAITFORHANDLING" by (simp add: example_ready_def)
  have v: "currPlSz example_ready = 2" "payload example_ready = [0x10, 0x20, 0, 0]"
    by (simp_all add: example_ready_def)
  note inst = resend_after_acknowledge [OF h1 h2 h3 h4 h5 h6, unfolded pk v]
  have a: "state (payloadHandled example_ready) = WAITFORPACKET"
    using inst by blast
  have b: "\<exists>t2 r2. feed example_config (payloadHandled example_ready) [0xAA, 0xAA, 0x03, 0x10, 0x20] = Inr t2
         \<and> state t2 = CHKSUM
         \<and> readUpdate example_config t2 [0x87] = Inr (Some 2, r2, [])
         \<and> feed example_config (payloadHandled example_ready) ?P = Inr r2
         \<and> state r2 = WAITFORHANDLING
         \<and> currPlSz r2 = 2
         \<and> payload r2 = [0x10, 0x20, 0, 0]"
    using inst by auto
  have all: "\<exists>t t'. feed example_config (payloadHandled example_ready) (take k ?P) = Inr t
                \<and> state t \<noteq> WAITFORHANDLING
                \<and> readUpdate example_config t [?P ! k] = Inr (Some (- 1), t', [])
                \<and> state t' \<noteq> WAITFORHANDLING"
    if "k < length ?P - 1" for k
    using inst that by blast
  have k2: "(2 :: nat) < length ?P - 1" and k4: "(4 :: nat) < length ?P - 1" by simp_all
  have c: "\<exists>t t'. feed example_config (payloadHandled example_ready) [0xAA, 0xAA] = Inr t
         \<and> state t \<noteq> WAITFORHANDLING
         \<and> readUpdate example_config t [0x03] = Inr (Some (- 1), t', [])
         \<and> state t' \<noteq> WAITFORHANDLING"
    using all [OF k2] by (simp add: numeral_2_eq_2)
  have d: "\<exists>t t'. feed example_config (payloadHandled example_ready) [0xAA, 0xAA, 0x03, 0x10] = Inr t
         \<and> state t \<noteq> WAITFORHANDLING
         \<and> readUpdate example_config t [0x20] = Inr (Some (- 1), t', [])
         \<and> state t' \<noteq> WAITFORHANDLING"
    using all [OF k4] by simp
  have p: "packet example_config [0x10, 0x20] = ?P" by (rule pk)
  have f: "feed example_config (SerialReader_new zeroed_storage) ?P = Inr example_ready"
    using h5 unfolding pk .
  show ?thesis
    using h1 h2 h3 p f h6 a b k2 c k4 d by blast
qed

section \<open>Writes into the payload buffer\<close>

text \<open>
  C10. After an accepted length byte \<open>B\<close> with \<open>2 \<le> B \<le> maxPayloadSize\<close>, as long as fewer
  than \<open>B - 1\<close> payload bytes have been read the decoder is in \<open>PAYLOAD\<close> with the fill
  count below the expected size \<open>B - 1\<close> and below \<open>maxPayloadSize\<close>, and the next byte is
  written at that index, inside the buffer; after \<open>B - 1\<close> payload bytes the decoder is in
  \<open>CHKSUM\<close> and writes no more.
\<close>

theorem payload_writes_in_bounds:
  assumes "state r = HEADER2" and "length (payload r) = maxPayloadSize cfg"
    and "2 \<le> unat B" and "unat B \<le> maxPayloadSize cfg" and "length bs \<le> unat B - 1"
  shows "\<exists>r'. feed cfg r (B # bs) = Inr r'
           \<and> currPlSz r' = int (unat B) - 1
           \<and> plCntr r' = int (length bs)
           \<and> state r' = (if length bs = unat B - 1 then CHKSUM else PAYLOAD)
           \<and> (state r' = PAYLOAD \<longrightarrow>
                plCntr r' < currPlSz r' \<and> nat (plCntr r') < maxPayloadSize cfg
                \<and> (\<forall>b. \<exists>r''. feed cfg r' [b] = Inr r''
                      \<and> payload r'' = (payload r')[nat (plCntr r') := b]))"
proof -
  obtain r' where fd: "feed cfg r (B # bs) = Inr r'"
      and st: "state r' = (if length bs = unat B - 1 then CHKSUM else PAYLOAD)"
      and cn: "plCntr r' = int (length bs)"
      and sz0: "currPlSz r' = int (unat B - 1)"
      and pl: "payload r' = bs @ drop (length bs) (payload r)"
    using feed_length_byte [OF assms(1,3,4,2,5)] by blast
  have sz: "currPlSz r' = int (unat B) - 1"
    using sz0 assms(3) by (simp add: of_nat_diff)
  have len: "length (payload r') = maxPayloadSize cfg"
    using pl assms(2,4,5) by simp
  have wr: "plCntr r' < currPlSz r' \<and> nat (plCntr r') < maxPayloadSize cfg
                \<and> (\<forall>b. \<exists>r''. feed cfg r' [b] = Inr r''
                      \<and> payload r'' = (payload r')[nat (plCntr r') := b])"
    if p: "state r' = PAYLOAD"
  proof -
    have lt: "length bs < unat B - 1"
      using p st assms(5) by (cases "length bs = unat B - 1") simp_all
    have k: "length bs < length (payload r')"
      using lt assms(4) len by simp
    have "\<exists>r''. feed cfg r' [b] = Inr r'' \<and> payload r'' = (payload r')[nat (plCntr r') := b]" for b
      by (simp add: feed_Cons feed_Nil switch_PAYLOAD [OF p cn k] cn)
    moreover have "plCntr r' < currPlSz r'"
      unfolding cn sz0 using lt by (simp only: of_nat_less_iff)
    moreover have "nat (plCntr r') < maxPayloadSize cfg" using k cn len by simp
    ultimately show ?thesis by blast
  qed
  show ?thesis
    using fd sz cn st wr by blast
qed

theorem payload_writes_in_bounds_witness:
  "state (zeroed_storage\<lparr>state := HEADER2\<rparr>) = HEADER2
   \<and> length (payload (zeroed_storage\<lparr>state := HEADER2\<rparr>)) = maxPayloadSize example_config
   \<and> 2 \<le> unat (3 :: byte) \<and> unat (3 :: byte) \<le> maxPayloadSize example_config
   \<and> length [0x10 :: byte] \<le> unat (3 :: byte) - 1
   \<and> (\<exists>r'. feed example_config (zeroed_storage\<lparr>state := HEADER2\<rparr>) [3, 0x10] = Inr r'
          \<and> state r' = PAYLOAD \<and> currPlSz r' = 2 \<and> plCntr r' = 1
          \<and> plCntr r' < currPlSz r' \<and> nat (plCntr r') < maxPayloadSize example_config
          \<and> (\<exists>r''. feed example_config r' [0x20] = Inr r''
                \<and> payload r'' = (payload r')[nat (plCntr r') := 0x20]))"
proof -
  let ?r = "zeroed_storage\<lparr>state := HEADER2\<rparr>"
  have h1: "state ?r = HEADER2" by simp
  have h2: "length (payload ?r) = maxPayloadSize example_config"
    by (simp add: zeroed_storage_def example_config_def)
  have h3: "2 \<le> unat (3 :: byte)" by simp
  have h4: "unat (3 :: byte) \<le> maxPayloadSize example_config"
    by (simp add: example_config_def)
  have h5: "length [0x10 :: byte] \<le> unat (3 :: byte) - 1" by simp
  obtain r' where r': "feed example_config ?r [3, 0x10] = Inr r'"
      "currPlSz r' = int (unat (3 :: byte)) - 1" "plCntr r' = int (length [0x10 :: byte])"
      "state r' = (if length [0x10 :: byte] = unat (3 :: byte) - 1 then CHKSUM else PAYLOAD)"
      "state r' = PAYLOAD \<longrightarrow>
                plCntr r' < currPlSz r' \<and> nat (plCntr r') < maxPayloadSize example_config
                \<and> (\<forall>b. \<exists>r''. feed example_config r' [b] = Inr r''
                      \<and> payload r'' = (payload r')[nat (plCntr r') := b])"
    using payload_writes_in_bounds [OF h1 h2 h3 h4 h5] by blast
  have st: "state r' = PAYLOAD" using r'(4) by simp
  have sz: "currPlSz r' = 2" using r'(2) by simp
  have cn: "plCntr r' = 1" using r'(3) by simp
  have w: "plCntr r' < currPlSz r'" "nat (plCntr r') < maxPayloadSize example_config"
      "\<exists>r''. feed example_config r' [0x20] = Inr r''
                \<and> payload r'' = (payload r')[nat (plCntr r') := 0x20]"
    using r'(5) st by blast+
  show ?thesis
    using h1 h2 h3 h4 h5 r'(1) st sz cn w by blast
qed

text \<open>
  The length byte 1 is outside that range: the expected size is 0, the fill count is 1
  after the first byte and never equal to it, and the fifth byte is written past a buffer
  of four.
\<close>

lemma zero_length_payload_overruns:
  "feed example_config (SerialReader_new zeroed_storage) [0xAA, 0xAA, 0x01, 0x55] =
     Inr \<lparr>state = PAYLOAD, currByte = 0x55, currPlSz = 0, plCntr = 1, chksum = 0xAA,
          payload = [0x55, 0, 0, 0]\<rparr>
   \<and> feed example_config (SerialReader_new zeroed_storage)
        [0xAA, 0xAA, 0x01, 0x55, 0xAA, 0xAA, 0x03, 0x10] = Inl BufferOverrun"
  by (simp add: example_eval)

section \<open>The fill count in every reachable state\<close>

lemma switch_state_inv:
  assumes "fill_inv cfg r" and "switch_state cfg (r\<lparr>currByte := b\<rparr>) = Inr r'"
  shows "fill_inv cfg r'"
proof (cases "state r")
  case WAITFORPACKET
  have "r' = (if b = INCOMING_HEADER_BYTE cfg then r\<lparr>currByte := b, state := HEADER1\<rparr>
              else r\<lparr>currByte := b\<rparr>)"
    using assms(2) by (simp add: switch_WAITFORPACKET [OF WAITFORPACKET])
  then show ?thesis
    using assms(1) WAITFORPACKET by (simp add: fill_inv_def)
next
  case HEADER1
  have "r' = r\<lparr>currByte := b,
                state := (if b = INCOMING_HEADER_BYTE cfg then HEADER2 else WAITFORPACKET)\<rparr>"
    using assms(2) by (simp add: switch_HEADER1 [OF HEADER1])
  then show ?thesis
    using assms(1) by (simp add: fill_inv_def)
next
  case HEADER2
  show ?thesis
  proof (cases "b = 0 \<or> maxPayloadSize cfg < unat b")
    case True
    have "r' = r\<lparr>currByte := b, state := WAITFORPACKET\<rparr>"
      using assms(2) by (simp add: switch_HEADER2_reject [OF HEADER2 True])
    then show ?thesis
      using assms(1) by (simp add: fill_inv_def)
  next
    case False
    then have b0: "b \<noteq> 0" and le: "unat b \<le> maxPayloadSize cfg" by simp_all
    have r': "r' = r\<lparr>currByte := b, currPlSz := uint b - 1, plCntr := 0, state := PAYLOAD,
            chksum := INCOMING_HEADER_BYTE cfg + INCOMING_HEADER_BYTE cfg + b\<rparr>"
      using assms(2) by (simp add: switch_HEADER2_accept [OF HEADER2 b0 le])
    have "uint b \<le> int (maxPayloadSize cfg)"
      unfolding uint_nat using le by (simp only: of_nat_le_iff)
    then show ?thesis
      using assms(1) by (simp add: fill_inv_def r')
  qed
next
  case PAYLOAD
  have len: "length (payload r) = maxPayloadSize cfg"
    and nn: "0 \<le> plCntr r"
    and bd: "1 \<le> currPlSz r \<longrightarrow> plCntr r < currPlSz r \<and> currPlSz r < int (maxPayloadSize cfg)"
    using assms(1) PAYLOAD by (simp_all add: fill_inv_def)
  have k: "nat (plCntr r) < length (payload r)"
  proof (rule ccontr)
    assume "\<not> nat (plCntr r) < length (payload r)"
    then have "switch_state cfg (r\<lparr>currByte := b\<rparr>) = Inl BufferOverrun"
      using PAYLOAD by (simp add: switch_state_def)
    with assms(2) show False by simp
  qed
  have c: "plCntr r = int (nat (plCntr r))" using nn by simp
  let ?r' = "r\<lparr>currByte := b, payload := (payload r)[nat (plCntr r) := b],
                plCntr := int (nat (plCntr r)) + 1, chksum := chksum r + b,
                state := (if int (nat (plCntr r)) + 1 = currPlSz r then CHKSUM else PAYLOAD)\<rparr>"
  have r': "r' = ?r'"
    using assms(2) unfolding switch_PAYLOAD [OF PAYLOAD c k] by simp
  show ?thesis
  proof (cases "int (nat (plCntr r)) + 1 = currPlSz r")
    case True
    then have "1 \<le> currPlSz r" using nn by simp
    with bd have "currPlSz r < int (maxPayloadSize cfg)" by simp
    then show ?thesis
      unfolding r' using True len nn by (simp add: fill_inv_def)
  next
    case False
    then have "1 \<le> currPlSz r \<longrightarrow> int (nat (plCntr r)) + 1 < currPlSz r"
      using bd nn by auto
    then show ?thesis
      unfolding r' using False len nn bd by (simp add: fill_inv_def)
  qed
next
  case CHKSUM
  have "r' = r\<lparr>currByte := b,
                state := (if chksum r = b then WAITFORHANDLING else WAITFORPACKET)\<rparr>"
    using assms(2) by (simp add: switch_CHKSUM [OF CHKSUM])
  then show ?thesis
    using assms(1) CHKSUM by (simp add: fill_inv_def)
next
  case WAITFORHANDLING
  have "r' = r\<lparr>currByte := b\<rparr>"
    using assms(2) by (simp add: switch_WAITFORHANDLING [OF WAITFORHANDLING])
  then show ?thesis
    using assms(1) WAITFORHANDLING by (simp add: fill_inv_def)
qed

lemma readUpdate_inv:
  assumes "fill_inv cfg r" and "readUpdate cfg r [b] = Inr (v, r', rest)"
  shows "fill_inv cfg r'"
proof -
  have "switch_state cfg (r\<lparr>currByte := b\<rparr>) = Inr r'"
    using readUpdate_returns [OF assms(2)] by simp
  then show ?thesis by (rule switch_state_inv [OF assms(1)])
qed

lemma payloadHandled_inv: "fill_inv cfg r \<Longrightarrow> fill_inv cfg (payloadHandled r)"
  by (simp add: fill_inv_def payloadHandled_def)

lemma run_inv:
  "fill_inv cfg r \<Longrightarrow> run cfg r es = Inr r' \<Longrightarrow> fill_inv cfg r'"
proof (induction cfg r es rule: run.induct)
  case (1 cfg r)
  then show ?case by simp
next
  case (2 cfg r b es)
  from "2.prems"(2) obtain v r1 rest where
      step: "readUpdate cfg r [b] = Inr (v, r1, rest)" and rest: "run cfg r1 es = Inr r'"
    by (auto split: sum.splits)
  have "fill_inv cfg r1" by (rule readUpdate_inv [OF "2.prems"(1) step])
  then show ?case
    using "2.IH" [OF step refl refl] rest by simp
next
  case (3 cfg r es)
  then show ?case by (simp add: payloadHandled_inv)
qed

lemma SerialReader_new_inv:
  "length (payload mem) = maxPayloadSize cfg \<Longrightarrow> fill_inv cfg (SerialReader_new mem)"
  by (simp add: fill_inv_def SerialReader_new_def)

text \<open>
  C2 (as amended). In every state the decoder reaches from its initial state by received
  bytes and acknowledgments: in \<open>CHKSUM\<close> and \<open>WAITFORHANDLING\<close> the fill count equals the
  expected payload length, which is below \<open>maxPayloadSize\<close>; in \<open>PAYLOAD\<close> with an expected
  payload length of at least 1 the fill count is below the expected payload length, which
  is below \<open>maxPayloadSize\<close>, and the next payload byte is written inside the buffer.
\<close>

theorem fill_count_bounded:
  assumes "length (payload mem) = maxPayloadSize cfg"
    and "run cfg (SerialReader_new mem) es = Inr r"
  shows "(state r = CHKSUM \<or> state r = WAITFORHANDLING \<longrightarrow>
            0 \<le> plCntr r \<and> plCntr r = currPlSz r \<and> currPlSz r < int (maxPayloadSize cfg))
       \<and> (state r = PAYLOAD \<and> 1 \<le> currPlSz r \<longrightarrow>
            0 \<le> plCntr r \<and> plCntr r < currPlSz r \<and> currPlSz r < int (maxPayloadSize cfg)
            \<and> nat (plCntr r) < length (payload r)
            \<and> (\<forall>b. \<exists>r'. readUpdate cfg r [b] = Inr (Some (if state r' = WAITFORHANDLING then currPlSz r' else - 1), r', [])
                   \<and> payload r' = (payload r)[nat (plCntr r) := b]))"
proof -
  have inv: "fill_inv cfg r"
    by (rule run_inv [OF SerialReader_new_inv [OF assms(1)] assms(2)])
  have a: "0 \<le> plCntr r \<and> plCntr r = currPlSz r \<and> currPlSz r < int (maxPayloadSize cfg)"
    if "state r = CHKSUM \<or> state r = WAITFORHANDLING"
    using inv that by (auto simp: fill_inv_def)
  have b: "0 \<le> plCntr r \<and> plCntr r < currPlSz r \<and> currPlSz r < int (maxPayloadSize cfg)
            \<and> nat (plCntr r) < length (payload r)
            \<and> (\<forall>b. \<exists>r'. readUpdate cfg r [b] = Inr (Some (if state r' = WAITFORHANDLING then currPlSz r' else - 1), r', [])
                   \<and> payload r' = (payload r)[nat (plCntr r) := b])"
    if p: "state r = PAYLOAD" and one: "1 \<le> currPlSz r"
  proof -
    have f: "0 \<le> plCntr r" "plCntr r < currPlSz r" "currPlSz r < int (maxPayloadSize cfg)"
        "length (payload r) = maxPayloadSize cfg"
      using inv p one by (auto simp: fill_inv_def)
    have k: "nat (plCntr r) < length (payload r)" using f by simp
    have c: "plCntr r = int (nat (plCntr r))" using f(1) by simp
    have "\<exists>r'. readUpdate cfg r [b] = Inr (Some (if state r' = WAITFORHANDLING then currPlSz r' else - 1), r', [])
                   \<and> payload r' = (payload r)[nat (plCntr r) := b]" for b
      by (simp add: readUpdate_Cons switch_PAYLOAD [OF p c k])
    then show ?thesis using f(1-3) k by blast
  qed
  show ?thesis using a b by blast
qed

theorem fill_count_bounded_witness:
  "length (payload zeroed_storage) = maxPayloadSize example_config
   \<and> (\<exists>r. run example_config (SerialReader_new zeroed_storage) [Rx 0xAA, Rx 0xAA, Rx 3, Rx 0x10] = Inr r
         \<and> state r = PAYLOAD \<and> currPlSz r = 2 \<and> plCntr r = 1
         \<and> plCntr r < currPlSz r \<and> currPlSz r < int (maxPayloadSize example_config)
         \<and> nat (plCntr r) < length (payload r))
   \<and> run example_config (SerialReader_new zeroed_storage)
        [Rx 0xAA, Rx 0xAA, Rx 3, Rx 0x10, Rx 0x20, Rx 0x87] = Inr example_ready
   \<and> state example_ready = WAITFORHANDLING
   \<and> plCntr example_ready = currPlSz example_ready
   \<and> currPlSz example_ready < int (maxPayloadSize example_config)"
proof -
  let ?mid = "\<lparr>state = PAYLOAD, currByte = 0x10, currPlSz = 2, plCntr = 1, chksum = 0x67,
      payload = [0x10, 0, 0, 0]\<rparr>"
  have h: "length (payload zeroed_storage) = maxPayloadSize example_config"
    by (simp add: zeroed_storage_def example_config_def)
  have m: "run example_config (SerialReader_new zeroed_storage) [Rx 0xAA, Rx 0xAA, Rx 3, Rx 0x10] =
      Inr ?mid"
    by (simp add: example_eval)
  have e: "run example_config (SerialReader_new zeroed_storage)
        [Rx 0xAA, Rx 0xAA, Rx 3, Rx 0x10, Rx 0x20, Rx 0x87] = Inr example_ready"
    by (simp add: example_eval)
  have a: "state ?mid = PAYLOAD \<and> currPlSz ?mid = 2 \<and> plCntr ?mid = 1
         \<and> plCntr ?mid < currPlSz ?mid \<and> currPlSz ?mid < int (maxPayloadSize example_config)
         \<and> nat (plCntr ?mid) < length (payload ?mid)"
    using fill_count_bounded [OF h m] by simp
  have b: "state example_ready = WAITFORHANDLING
         \<and> plCntr example_ready = currPlSz example_ready
         \<and> currPlSz example_ready < int (maxPayloadSize example_config)"
    using fill_count_bounded [OF h e] by (simp add: example_ready_def)
  show ?thesis using h m e a b by blast
qed

text \<open>
  After an acknowledgment the expected payload length is the sentinel \<open>-1\<close> and the fill
  count is still that of the packet handled: it is above the expected payload length.
\<close>

theorem fill_count_above_sentinel:
  "run example_config (SerialReader_new zeroed_storage)
     [Rx 0xAA, Rx 0xAA, Rx 3, Rx 0x10, Rx 0x20, Rx 0x87, Handled] = Inr (payloadHandled example_ready)
   \<and> plCntr (payloadHandled example_ready) = 2
   \<and> currPlSz (payloadHandled example_ready) = - 1
   \<and> \<not> plCntr (payloadHandled example_ready) \<le> currPlSz (payloadHandled example_ready)"
  by (simp add: example_eval)

end
